theory Spec2Isabelle
  imports Complex_Main "HOL-Library.Multiset"
begin

section \<open>The playback state of \<open>MusicHandler\<close> (music_handler.py)\<close>

text \<open>
  The class \<open>MusicHandler\<close> keeps five dictionaries keyed by chat id. Each method reads
  and writes them in place; here every method takes the state and returns the state it
  leaves behind, together with what it returned or raised.

  A queued song is the dict \<open>song_data\<close> built in \<open>search_and_play\<close>. It is never
  mutated after it is built, so the reference held by the queue and the one held by
  \<open>current_songs\<close> are modelled by the same value. It always has its nine keys, so
  it is truthy wherever the source tests it. \<open>song_info\<close> is what the resolver returns;
  an optional field is a key that may be missing, and \<open>views = None\<close> stands for the
  default \<open>'Unknown'\<close>.
\<close>

datatype platform = Discord | Telegram

record song_info =
  info_title :: string
  info_url :: string
  info_duration :: int
  info_thumbnail :: "string option"
  info_view_count :: "int option"
  info_uploader :: "string option"

record song =
  title :: string
  url :: string
  duration :: int
  thumbnail :: string
  views :: "int option"
  uploader :: string
  video :: bool
  requested_by :: int
  platform :: platform

text \<open>
  A voice client is an object of the Discord library; the handler only stores the
  reference and calls its methods, so it is modelled by an identifier.

  Playback speeds are Python floats: a finite float is its exact rational value (the
  bounds \<open>0.5\<close> and \<open>2.0\<close> are exact in binary floating point), and the two infinities
  and not-a-number are values of their own. \<open>float_less\<close> is the comparison \<open><\<close> of
  floats: every comparison with not-a-number is false.
\<close>

type_synonym voice_client = nat

datatype pyfloat = Finite rat | PosInf | NegInf | NaN

fun float_less :: "pyfloat \<Rightarrow> pyfloat \<Rightarrow> bool" where
  "float_less (Finite a) (Finite b) = (a < b)"
| "float_less (Finite a) PosInf = True"
| "float_less NegInf (Finite b) = True"
| "float_less NegInf PosInf = True"
| "float_less x y = False"

record mstate =
  queues :: "int \<rightharpoonup> song list"
  current_songs :: "int \<rightharpoonup> song"
  loop_modes :: "int \<rightharpoonup> int"
  playback_speeds :: "int \<rightharpoonup> pyfloat"
  voice_clients :: "int \<rightharpoonup> voice_client"

text \<open>
  The exceptions the methods meet: \<open>KeyError\<close> from indexing a dictionary at a missing
  chat id, \<open>NotFound\<close> for \<open>Exception("Song not found!")\<close>, \<open>DriverError\<close> for any
  exception of the resolver, FFmpeg or the voice connection, and \<open>RuntimeError\<close> for
  the one \<open>asyncio.create_task\<close> raises where no event loop is running.
\<close>

datatype error = KeyError | NotFound | DriverError | RuntimeError

text \<open>
  The collaborators outside the repository (yt-dlp, FFmpeg, the Discord voice client,
  pytgcalls) are parameters of the model. Each field says how one external call ends:
  \<^item> \<open>search_song\<close>: the result of \<open>_search_song\<close>, \<open>None\<close> when nothing was found;
  \<^item> \<open>extract_audio\<close>: the stream URL \<open>_get_audio_source\<close> extracts, \<open>None\<close> when it raises;
  \<^item> \<open>discord_play\<close>: given the stream URL and the speed put into the FFmpeg options, the
    voice client on which \<open>voice_client.play\<close> started, \<open>None\<close> when connecting, building
    the audio source or \<open>play\<close> raises;
  \<^item> \<open>telegram_play\<close>: whether the pytgcalls import and the stream construction succeed;
  \<^item> \<open>is_playing\<close>, \<open>is_paused\<close>: the voice client's status;
  \<^item> \<open>disconnect\<close>: whether \<open>voice_client.disconnect()\<close> returns (\<open>False\<close>: it raises).
\<close>

record driver =
  search_song :: "string \<Rightarrow> song_info option"
  extract_audio :: "string \<Rightarrow> string option"
  discord_play :: "string \<Rightarrow> pyfloat \<Rightarrow> voice_client option"
  telegram_play :: "song \<Rightarrow> bool"
  is_playing :: "voice_client \<Rightarrow> bool"
  is_paused :: "voice_client \<Rightarrow> bool"
  disconnect :: "voice_client \<Rightarrow> bool"

subsection \<open>Reading the dictionaries with a default\<close>

text \<open>\<open>self.queues.get(chat_id, [])\<close>, \<open>self.loop_modes.get(chat_id, 0)\<close> and
  \<open>self.playback_speeds.get(chat_id, 1.0)\<close>.\<close>

definition queue_of :: "mstate \<Rightarrow> int \<Rightarrow> song list" where
  "queue_of s c = (case queues s c of None \<Rightarrow> [] | Some q \<Rightarrow> q)"

definition loop_mode_of :: "mstate \<Rightarrow> int \<Rightarrow> int" where
  "loop_mode_of s c = (case loop_modes s c of None \<Rightarrow> 0 | Some m \<Rightarrow> m)"

definition speed_of :: "mstate \<Rightarrow> int \<Rightarrow> pyfloat" where
  "speed_of s c = (case playback_speeds s c of None \<Rightarrow> Finite 1 | Some v \<Rightarrow> v)"

text \<open>\<open>get_queue\<close>: the four values it reports for a chat.\<close>

definition get_queue :: "int \<Rightarrow> mstate \<Rightarrow> song option \<times> song list \<times> int \<times> pyfloat" where
  "get_queue c s = (current_songs s c, queue_of s c, loop_mode_of s c, speed_of s c)"

subsection \<open>Starting a track\<close>

text \<open>
  \<open>_get_audio_source\<close>, \<open>_play_discord\<close> and \<open>_play_telegram\<close> (the leading underscore of
  the source's names is dropped). Each either raises, leaving every dictionary as it
  was, or returns. \<open>_play_discord\<close> reads the chat's speed, starts the player and
  stores the voice client; \<open>_play_telegram\<close> reads the speed without using it and stores
  nothing.
\<close>

definition get_audio_source :: "driver \<Rightarrow> string \<Rightarrow> error + string" where
  "get_audio_source drv u =
     (case extract_audio drv u of None \<Rightarrow> Inl DriverError | Some a \<Rightarrow> Inr a)"

definition play_discord :: "driver \<Rightarrow> string \<Rightarrow> int \<Rightarrow> mstate \<Rightarrow> error + mstate" where
  "play_discord drv audio_source c s =
     (let speed = speed_of s c in
      case discord_play drv audio_source speed of
        None \<Rightarrow> Inl DriverError
      | Some vc \<Rightarrow> Inr (s\<lparr>voice_clients := (voice_clients s)(c \<mapsto> vc)\<rparr>))"

definition play_telegram :: "driver \<Rightarrow> song \<Rightarrow> int \<Rightarrow> mstate \<Rightarrow> error + mstate" where
  "play_telegram drv sg c s = (if telegram_play drv sg then Inr s else Inl DriverError)"

text \<open>The body of the \<open>try\<close> block of \<open>_play_next\<close> after the head was popped.\<close>

definition start_song :: "driver \<Rightarrow> platform \<Rightarrow> song \<Rightarrow> int \<Rightarrow> mstate \<Rightarrow> error + mstate" where
  "start_song drv p sg c s =
     (case get_audio_source drv (url sg) of
        Inl e \<Rightarrow> Inl e
      | Inr audio_source \<Rightarrow>
          (if p = Discord then play_discord drv audio_source c s
           else play_telegram drv sg c s))"

subsection \<open>\<open>_play_next\<close>\<close>

text \<open>
  An empty or missing queue clears the chat's current song. Otherwise the head is
  popped and made current before the start is attempted. The \<open>except\<close> clause logs the
  exception and, while the queue is not empty, calls \<open>_play_next\<close> again; it never
  re-raises. The recursion ends because every call pops one song.
\<close>

function play_next :: "driver \<Rightarrow> platform \<Rightarrow> int \<Rightarrow> mstate \<Rightarrow> (error + unit) \<times> mstate" where
  "play_next drv p c s =
     (case queues s c of
        None \<Rightarrow> (Inr (), s\<lparr>current_songs := (current_songs s)(c := None)\<rparr>)
      | Some [] \<Rightarrow> (Inr (), s\<lparr>current_songs := (current_songs s)(c := None)\<rparr>)
      | Some (sg # rest) \<Rightarrow>
          (case start_song drv p sg c
                  (s\<lparr>queues := (queues s)(c \<mapsto> rest),
                     current_songs := (current_songs s)(c \<mapsto> sg)\<rparr>) of
             Inr s2 \<Rightarrow> (Inr (), s2)
           | Inl e \<Rightarrow>
               (if rest \<noteq> []
                then play_next drv p c
                       (s\<lparr>queues := (queues s)(c \<mapsto> rest),
                          current_songs := (current_songs s)(c \<mapsto> sg)\<rparr>)
                else (Inr (), s\<lparr>queues := (queues s)(c \<mapsto> rest),
                                current_songs := (current_songs s)(c \<mapsto> sg)\<rparr>))))"
  by pat_completeness auto
termination
  by (relation "measure (\<lambda>(drv, p, c, s). length (queue_of s c))")
     (auto simp: queue_of_def)

declare play_next.simps [simp del]

subsection \<open>The completion callback\<close>

text \<open>
  \<open>after_playing\<close> is the closure \<open>_play_discord\<close> hands to \<open>voice_client.play\<close> as its
  \<open>after\<close> argument: the spec's \<open>on_track_end\<close>. It is a plain function, not a coroutine.
  It applies the loop mode to the dictionaries and, in every branch, ends with
  \<open>asyncio.create_task(self._play_next(chat_id, ctx, 'discord'))\<close>.

  The voice client calls \<open>after\<close> on its audio player thread, when the player has ended.
  That thread has no running event loop, so \<open>create_task\<close> raises \<open>RuntimeError\<close> there:
  the coroutine is built but never scheduled, \<open>_play_next\<close> does not run, and the
  dictionaries stay as the callback left them. Nothing in the source hands the call
  over to the loop's thread. \<open>create_task\<close> below is that call.
\<close>

definition create_task :: "mstate \<Rightarrow> (error + unit) \<times> mstate" where
  "create_task s = (Inl RuntimeError, s)"

definition after_playing :: "int \<Rightarrow> mstate \<Rightarrow> (error + unit) \<times> mstate" where
  "after_playing c s =
     (let loop_mode = loop_mode_of s c in
      if loop_mode = 1 then create_task s
      else if loop_mode > 1 then
        (if loop_mode = 2 then
           (case current_songs s c of
              None \<Rightarrow> create_task s
            | Some cur \<Rightarrow>
                (case queues s c of
                   None \<Rightarrow> (Inl KeyError, s)
                 | Some q \<Rightarrow> create_task (s\<lparr>queues := (queues s)(c \<mapsto> q @ [cur])\<rparr>)))
         else
           (case loop_modes s c of
              None \<Rightarrow> (Inl KeyError, s)
            | Some m \<Rightarrow>
                (let s1 = s\<lparr>loop_modes := (loop_modes s)(c \<mapsto> m - 1)\<rparr> in
                 case current_songs s1 c of
                   None \<Rightarrow> create_task s1
                 | Some cur \<Rightarrow>
                     (case queues s1 c of
                        None \<Rightarrow> (Inl KeyError, s1)
                      | Some q \<Rightarrow>
                          create_task (s1\<lparr>queues := (queues s1)(c \<mapsto> cur # q)\<rparr>)))))
      else create_task s)"

subsection \<open>\<open>search_and_play\<close>\<close>

text \<open>
  The chat's queue is created when missing, the query is resolved, the song is appended
  and, when the chat has no current song, \<open>_play_next\<close> is awaited. The \<open>except\<close> clause
  logs and re-raises, so a failed search leaves the (possibly just created) queue.
  The chat id and the user id are read from \<open>ctx\<close> in the source; here they are arguments.
\<close>

definition make_song :: "song_info \<Rightarrow> bool \<Rightarrow> int \<Rightarrow> platform \<Rightarrow> song" where
  "make_song info vid user p =
     \<lparr>title = info_title info,
      url = info_url info,
      duration = info_duration info,
      thumbnail = (case info_thumbnail info of None \<Rightarrow> [] | Some t \<Rightarrow> t),
      views = info_view_count info,
      uploader = (case info_uploader info of None \<Rightarrow> ''Unknown'' | Some u \<Rightarrow> u),
      video = vid,
      requested_by = user,
      platform = p\<rparr>"

definition search_and_play ::
  "driver \<Rightarrow> string \<Rightarrow> bool \<Rightarrow> int \<Rightarrow> platform \<Rightarrow> int \<Rightarrow> mstate \<Rightarrow> (error + song) \<times> mstate" where
  "search_and_play drv query vid user p c s =
     (let s1 = (case queues s c of
                  None \<Rightarrow> s\<lparr>queues := (queues s)(c \<mapsto> [])\<rparr>
                | Some q \<Rightarrow> s) in
      case search_song drv query of
        None \<Rightarrow> (Inl NotFound, s1)
      | Some info \<Rightarrow>
          (let song_data = make_song info vid user p;
               s2 = s1\<lparr>queues := (queues s1)(c \<mapsto> queue_of s1 c @ [song_data])\<rparr> in
           case current_songs s2 c of
             Some cur \<Rightarrow> (Inr song_data, s2)
           | None \<Rightarrow>
               (case play_next drv p c s2 of
                  (Inl e, s3) \<Rightarrow> (Inl e, s3)
                | (Inr u, s3) \<Rightarrow> (Inr song_data, s3))))"

subsection \<open>\<open>shuffle_queue\<close>\<close>

text \<open>
  \<open>random.shuffle\<close> is the standard library's in-place Fisher-Yates shuffle: for \<open>i\<close> from
  \<open>len(x) - 1\<close> down to \<open>1\<close> it draws \<open>j = randbelow(i + 1)\<close> and swaps \<open>x[i]\<close> and \<open>x[j]\<close>.
  The random draws are a parameter: \<open>randbelow n\<close> is the number drawn at the call with
  bound \<open>n\<close>, reduced below \<open>n\<close> as every draw of the library is.
\<close>

primrec shuffle_loop :: "(nat \<Rightarrow> nat) \<Rightarrow> nat \<Rightarrow> 'a list \<Rightarrow> 'a list" where
  "shuffle_loop randbelow 0 xs = xs"
| "shuffle_loop randbelow (Suc k) xs =
     (let i = Suc k;
          j = randbelow (i + 1) mod (i + 1)
      in shuffle_loop randbelow k (xs[i := xs ! j, j := xs ! i]))"

definition random_shuffle :: "(nat \<Rightarrow> nat) \<Rightarrow> 'a list \<Rightarrow> 'a list" where
  "random_shuffle randbelow xs = shuffle_loop randbelow (length xs - 1) xs"

definition shuffle_queue :: "(nat \<Rightarrow> nat) \<Rightarrow> int \<Rightarrow> mstate \<Rightarrow> (error + bool) \<times> mstate" where
  "shuffle_queue randbelow c s =
     (case queues s c of
        None \<Rightarrow> (Inr False, s)
      | Some [] \<Rightarrow> (Inr False, s)
      | Some (x # xs) \<Rightarrow>
          (Inr True, s\<lparr>queues := (queues s)(c \<mapsto> random_shuffle randbelow (x # xs))\<rparr>))"

subsection \<open>\<open>skip_song\<close>, \<open>stop_playback\<close>, \<open>pause_playback\<close>, \<open>resume_playback\<close>\<close>

text \<open>
  \<open>voice_client.stop()\<close>, \<open>pause()\<close> and \<open>resume()\<close> change no dictionary. Stopping a
  player makes the voice client call \<open>after_playing\<close> later, on its player thread; that
  call is a separate event.
\<close>

definition skip_song :: "driver \<Rightarrow> platform \<Rightarrow> int \<Rightarrow> mstate \<Rightarrow> (error + string) \<times> mstate" where
  "skip_song drv p c s =
     (if p = Discord \<and> (case voice_clients s c of None \<Rightarrow> False | Some vc \<Rightarrow> is_playing drv vc)
      then (Inr ''Skipped current song!'', s)
      else if queue_of s c \<noteq> [] then
        (case play_next drv p c s of
           (Inl e, s1) \<Rightarrow> (Inl e, s1)
         | (Inr u, s1) \<Rightarrow> (Inr ''Playing next song from queue!'', s1))
      else (Inr ''Nothing to skip!'', s))"

text \<open>
  \<open>stop_playback\<close> pops the chat from \<open>queues\<close>, \<open>current_songs\<close> and \<open>loop_modes\<close> (each
  \<open>pop\<close> has a default, so none raises) and never touches \<open>playback_speeds\<close>. On Discord
  a stored voice client is stopped, disconnected and then removed; when \<open>disconnect\<close>
  raises, the removal is not reached.
\<close>

definition stop_playback :: "driver \<Rightarrow> platform \<Rightarrow> int \<Rightarrow> mstate \<Rightarrow> (error + unit) \<times> mstate" where
  "stop_playback drv p c s =
     (let s1 = s\<lparr>queues := (queues s)(c := None),
                 current_songs := (current_songs s)(c := None),
                 loop_modes := (loop_modes s)(c := None)\<rparr> in
      if p = Discord then
        (case voice_clients s1 c of
           None \<Rightarrow> (Inr (), s1)
         | Some vc \<Rightarrow>
             (if disconnect drv vc
              then (Inr (), s1\<lparr>voice_clients := (voice_clients s1)(c := None)\<rparr>)
              else (Inl DriverError, s1)))
      else (Inr (), s1))"

definition pause_playback :: "driver \<Rightarrow> platform \<Rightarrow> int \<Rightarrow> mstate \<Rightarrow> (error + bool) \<times> mstate" where
  "pause_playback drv p c s =
     (if p = Discord \<and> (case voice_clients s c of None \<Rightarrow> False | Some vc \<Rightarrow> is_playing drv vc)
      then (Inr True, s)
      else (Inr False, s))"

definition resume_playback :: "driver \<Rightarrow> platform \<Rightarrow> int \<Rightarrow> mstate \<Rightarrow> (error + bool) \<times> mstate" where
  "resume_playback drv p c s =
     (if p = Discord \<and> (case voice_clients s c of None \<Rightarrow> False | Some vc \<Rightarrow> is_paused drv vc)
      then (Inr True, s)
      else (Inr False, s))"

subsection \<open>\<open>set_loop_mode\<close>, \<open>set_playback_speed\<close>, \<open>seek_position\<close>\<close>

text \<open>The reply of \<open>set_loop_mode\<close>: the range error, a named mode, or "repeat N times".\<close>

datatype loop_reply = LoopRangeError | LoopNamed string | LoopRepeat int

definition set_loop_mode :: "int option \<Rightarrow> int \<Rightarrow> mstate \<Rightarrow> (error + loop_reply) \<times> mstate" where
  "set_loop_mode mode c s =
     (let m = (case mode of
                 None \<Rightarrow> (if loop_mode_of s c = 0 then 2 else 0)
               | Some k \<Rightarrow> k) in
      if m < 0 \<or> m > 10 then (Inr LoopRangeError, s)
      else
        (let s1 = s\<lparr>loop_modes := (loop_modes s)(c \<mapsto> m)\<rparr> in
         if m = 0 then (Inr (LoopNamed ''disabled''), s1)
         else if m = 1 then (Inr (LoopNamed ''current song''), s1)
         else if m = 2 then (Inr (LoopNamed ''queue''), s1)
         else (Inr (LoopRepeat m), s1)))"

text \<open>
  \<open>set_playback_speed\<close> returns \<open>False\<close> before any assignment when the speed compares
  below \<open>0.5\<close> or above \<open>2.0\<close>. Otherwise it stores the speed and, when the chat has a current song, puts it
  back at the head of the queue (indexing \<open>self.queues[chat_id]\<close>) and stops the player.
\<close>

definition set_playback_speed :: "pyfloat \<Rightarrow> int \<Rightarrow> mstate \<Rightarrow> (error + bool) \<times> mstate" where
  "set_playback_speed speed c s =
     (if float_less speed (Finite (1 / 2)) \<or> float_less (Finite 2) speed then (Inr False, s)
      else
        (let s1 = s\<lparr>playback_speeds := (playback_speeds s)(c \<mapsto> speed)\<rparr> in
         case current_songs s1 c of
           None \<Rightarrow> (Inr True, s1)
         | Some current_song \<Rightarrow>
             (case queues s1 c of
                None \<Rightarrow> (Inl KeyError, s1)
              | Some q \<Rightarrow> (Inr True, s1\<lparr>queues := (queues s1)(c \<mapsto> current_song # q)\<rparr>))))"

definition seek_position :: "int \<Rightarrow> int \<Rightarrow> mstate \<Rightarrow> (error + bool) \<times> mstate" where
  "seek_position position c s = (Inr (current_songs s c \<noteq> None), s)"

subsection \<open>Every operation on a chat\<close>

text \<open>
  The operations that reach the dictionaries of one chat, and the state each leaves,
  whether it returned or raised.
\<close>

datatype command =
    Play string bool int
  | TrackEnd
  | Shuffle "nat \<Rightarrow> nat"
  | Skip
  | Stop
  | Pause
  | Resume
  | SetLoop "int option"
  | SetSpeed pyfloat
  | Seek int

fun step :: "driver \<Rightarrow> platform \<Rightarrow> int \<Rightarrow> command \<Rightarrow> mstate \<Rightarrow> mstate" where
  "step drv p c (Play query vid user) s = snd (search_and_play drv query vid user p c s)"
| "step drv p c TrackEnd s = snd (after_playing c s)"
| "step drv p c (Shuffle randbelow) s = snd (shuffle_queue randbelow c s)"
| "step drv p c Skip s = snd (skip_song drv p c s)"
| "step drv p c Stop s = snd (stop_playback drv p c s)"
| "step drv p c Pause s = snd (pause_playback drv p c s)"
| "step drv p c Resume s = snd (resume_playback drv p c s)"
| "step drv p c (SetLoop mode) s = snd (set_loop_mode mode c s)"
| "step drv p c (SetSpeed speed) s = snd (set_playback_speed speed c s)"
| "step drv p c (Seek position) s = snd (seek_position position c s)"

text \<open>A chat without a stored voice client has no current song.\<close>

definition handle_inv :: "mstate \<Rightarrow> int \<Rightarrow> bool" where
  "handle_inv s c = (voice_clients s c = None \<longrightarrow> current_songs s c = None)"

text \<open>An idle chat: no current song, no queued song, no voice client.\<close>

definition idle :: "mstate \<Rightarrow> int \<Rightarrow> bool" where
  "idle s c = (current_songs s c = None \<and> queue_of s c = [] \<and> voice_clients s c = None)"

text \<open>A chat with a current song has a queue entry.\<close>

definition queue_inv :: "mstate \<Rightarrow> int \<Rightarrow> bool" where
  "queue_inv s c = (current_songs s c = None \<or> queues s c \<noteq> None)"

text \<open>Whether starting \<open>sg\<close> in chat \<open>c\<close> raises (in \<open>_get_audio_source\<close>, \<open>_play_discord\<close>
  or \<open>_play_telegram\<close>).\<close>

definition start_fails :: "driver \<Rightarrow> platform \<Rightarrow> int \<Rightarrow> mstate \<Rightarrow> song \<Rightarrow> bool" where
  "start_fails drv p c s sg =
     (case start_song drv p sg c s of Inl e \<Rightarrow> True | Inr s2 \<Rightarrow> False)"

subsection \<open>Concrete songs, drivers and states\<close>

definition songA :: song where
  "songA = \<lparr>title = ''A'', url = ''https://example.org/a'', duration = 180, thumbnail = [],
            views = None, uploader = ''Unknown'', video = False, requested_by = 42,
            platform = Discord\<rparr>"

definition songB :: song where
  "songB = songA\<lparr>title := ''B'', url := ''https://example.org/b''\<rparr>"

definition songC :: song where
  "songC = songA\<lparr>title := ''C'', url := ''https://example.org/c''\<rparr>"

definition infoD :: song_info where
  "infoD = \<lparr>info_title = ''D'', info_url = ''https://example.org/d'', info_duration = 200,
            info_thumbnail = None, info_view_count = Some 10, info_uploader = None\<rparr>"

text \<open>A driver on which every call succeeds, and one on which no stream can be extracted.\<close>

definition drv_ok :: driver where
  "drv_ok = \<lparr>search_song = (\<lambda>q. Some infoD),
             extract_audio = (\<lambda>u. Some u),
             discord_play = (\<lambda>a v. Some 7),
             telegram_play = (\<lambda>sg. True),
             is_playing = (\<lambda>vc. True),
             is_paused = (\<lambda>vc. False),
             disconnect = (\<lambda>vc. True)\<rparr>"

definition drv_fail :: driver where
  "drv_fail = drv_ok\<lparr>extract_audio := (\<lambda>u. None)\<rparr>"

definition empty_state :: mstate where
  "empty_state = \<lparr>queues = Map.empty, current_songs = Map.empty, loop_modes = Map.empty,
                  playback_speeds = Map.empty, voice_clients = Map.empty\<rparr>"

text \<open>Chat 1 plays \<open>songA\<close> on voice client 7 with the queue \<open>q\<close> and loop mode \<open>m\<close>.\<close>

definition playing_state :: "song list \<Rightarrow> int \<Rightarrow> mstate" where
  "playing_state q m =
     \<lparr>queues = [1 \<mapsto> q], current_songs = [1 \<mapsto> songA], loop_modes = [1 \<mapsto> m],
      playback_speeds = Map.empty, voice_clients = [1 \<mapsto> 7]\<rparr>"

text \<open>Chat 1 has only a queue: nothing plays and no voice client is stored.\<close>

definition queued_state :: "song list \<Rightarrow> mstate" where
  "queued_state q = empty_state\<lparr>queues := [1 \<mapsto> q]\<rparr>"

text \<open>A random source that always draws 0.\<close>

definition draw_zero :: "nat \<Rightarrow> nat" where
  "draw_zero n = 0"

text \<open>Chat 1 is idle but its loop mode was set to 2 (loop queue).\<close>

definition idle_loop_state :: mstate where
  "idle_loop_state = empty_state\<lparr>loop_modes := [1 \<mapsto> 2]\<rparr>"

text \<open>A driver that tells the speeds apart: voice client 8 when started at speed 1.5,
  voice client 7 otherwise. And chat 1 playing at speed 1.5.\<close>

definition drv_speed :: driver where
  "drv_speed = drv_ok\<lparr>discord_play := (\<lambda>a v. if v = Finite (3 / 2) then Some 8 else Some 7)\<rparr>"

definition fast_state :: mstate where
  "fast_state = (playing_state [songB] 2)\<lparr>playback_speeds := [1 \<mapsto> Finite (3 / 2)]\<rparr>"

text \<open>A driver on which only the stream of \<open>songC\<close> can be extracted.\<close>

definition drv_only_c :: driver where
  "drv_only_c = drv_ok\<lparr>extract_audio := (\<lambda>u. if u = url songC then Some u else None)\<rparr>"


section \<open>Properties\<close>

subsection \<open>Unfolding \<open>_play_next\<close> once\<close>

lemma play_next_empty:
  "queue_of s c = [] \<Longrightarrow>
   play_next drv p c s = (Inr (), s\<lparr>current_songs := (current_songs s)(c := None)\<rparr>)"
  by (subst play_next.simps) (simp add: queue_of_def split: option.splits list.splits)

lemma play_next_started:
  assumes "queues s c = Some (sg # rest)"
    and "start_song drv p sg c
           (s\<lparr>queues := (queues s)(c \<mapsto> rest),
              current_songs := (current_songs s)(c \<mapsto> sg)\<rparr>) = Inr s2"
  shows "play_next drv p c s = (Inr (), s2)"
  using assms by (subst play_next.simps) simp

lemma play_next_failed:
  assumes "queues s c = Some (sg # rest)"
    and "start_song drv p sg c
           (s\<lparr>queues := (queues s)(c \<mapsto> rest),
              current_songs := (current_songs s)(c \<mapsto> sg)\<rparr>) = Inl e"
  shows "play_next drv p c s =
         (if rest \<noteq> []
          then play_next drv p c
                 (s\<lparr>queues := (queues s)(c \<mapsto> rest),
                    current_songs := (current_songs s)(c \<mapsto> sg)\<rparr>)
          else (Inr (), s\<lparr>queues := (queues s)(c \<mapsto> rest),
                          current_songs := (current_songs s)(c \<mapsto> sg)\<rparr>))"
  using assms by (subst play_next.simps) simp

text \<open>\<open>_play_next\<close> swallows every exception: it always returns normally.\<close>

lemma play_next_returns: "fst (play_next drv p c s) = Inr ()"
proof (induction drv p c s rule: play_next.induct)
  case (1 drv p c s)
  show ?case
  proof (cases "queues s c")
    case None
    then show ?thesis by (simp add: play_next_empty queue_of_def)
  next
    case (Some q)
    show ?thesis
    proof (cases q)
      case Nil
      with Some show ?thesis by (simp add: play_next_empty queue_of_def)
    next
      case (Cons sg rest)
      let ?s1 = "s\<lparr>queues := (queues s)(c \<mapsto> rest),
                   current_songs := (current_songs s)(c \<mapsto> sg)\<rparr>"
      show ?thesis
      proof (cases "start_song drv p sg c ?s1")
        case (Inr s2)
        with Some Cons show ?thesis by (simp add: play_next_started)
      next
        case (Inl e)
        with Some Cons "1.IH" [OF Some Cons Inl] show ?thesis
          by (simp add: play_next_failed)
      qed
    qed
  qed
qed

subsection \<open>Speed out of range\<close>

text \<open>Every speed that compares below 0.5 or above 2.0, the infinities included, is
  rejected before any assignment.\<close>

lemma set_speed_rejects_compared_out_of_range:
  "float_less speed (Finite (1 / 2)) \<or> float_less (Finite 2) speed \<Longrightarrow>
   set_playback_speed speed c s = (Inr False, s)"
  by (simp add: set_playback_speed_def)

text \<open>
  C6. The code at the speed not-a-number, which \<open>float("nan")\<close> gives for the argument of
  the speed command. Neither comparison of the guard holds, so the speed is not
  rejected: \<open>True\<close> is returned, not-a-number is stored as the chat's speed and the
  current song is put back at the head of the queue. The speed 3.0 is rejected with
  the state as it was.
\<close>

theorem set_speed_accepts_nan:
  "fst (set_playback_speed NaN 1 (playing_state [songB] 0)) = Inr True \<and>
   playback_speeds (snd (set_playback_speed NaN 1 (playing_state [songB] 0))) 1 = Some NaN \<and>
   queues (snd (set_playback_speed NaN 1 (playing_state [songB] 0))) 1 = Some [songA, songB] \<and>
   set_playback_speed (Finite 3) 1 (playing_state [songB] 0) =
     (Inr False, playing_state [songB] 0)"
  by (simp add: set_playback_speed_def playing_state_def)

subsection \<open>A completion that arrives after \<open>stop_playback\<close>\<close>

text \<open>
  C7. Whatever the chat's state was, on either platform and whether or not the
  disconnect succeeded, a completion callback that runs on the state \<open>stop_playback\<close>
  left changes nothing: it finds loop mode 0, goes straight to \<open>create_task\<close> and sets
  no current song and queues nothing. The \<open>_play_next\<close> it asks for would change nothing
  either: run on that state, it returns with the state as it was.
\<close>

theorem stale_completion_after_stop:
  "after_playing c (snd (stop_playback drv p c s)) =
     (Inl RuntimeError, snd (stop_playback drv p c s)) \<and>
   play_next drv Discord c (snd (stop_playback drv p c s)) =
     (Inr (), snd (stop_playback drv p c s))"
  by (simp add: after_playing_def create_task_def stop_playback_def loop_mode_of_def
      play_next_empty queue_of_def Let_def split: option.splits)

theorem stale_completion_after_stop_witness:
  "current_songs (snd (after_playing 1
      (snd (stop_playback drv_ok Discord 1 (playing_state [songB] 2))))) 1 = None \<and>
   queues (snd (after_playing 1
      (snd (stop_playback drv_ok Discord 1 (playing_state [songB] 2))))) 1 = None"
  using stale_completion_after_stop [of 1 drv_ok Discord "playing_state [songB] 2"]
  by (simp add: stop_playback_def playing_state_def drv_ok_def)

subsection \<open>Shuffling\<close>

lemma mset_shuffle_loop: "k < length xs \<Longrightarrow> mset (shuffle_loop rb k xs) = mset xs"
proof (induction k arbitrary: xs)
  case 0
  then show ?case by simp
next
  case (Suc k)
  let ?j = "rb (Suc k + 1) mod (Suc k + 1)"
  have "?j < Suc k + 1" by (rule mod_less_divisor) simp
  then have j: "?j < length xs" using Suc.prems by linarith
  have "mset (xs[Suc k := xs ! ?j, ?j := xs ! Suc k]) = mset xs"
    using Suc.prems j by (simp add: mset_swap)
  moreover have "k < length (xs[Suc k := xs ! ?j, ?j := xs ! Suc k])"
    using Suc.prems by simp
  ultimately show ?case using Suc.IH by (simp add: Let_def)
qed

text \<open>Whatever is drawn, the shuffle returns a permutation of its argument.\<close>

lemma mset_random_shuffle: "mset (random_shuffle rb xs) = mset xs"
proof (cases xs)
  case Nil
  then show ?thesis by (simp add: random_shuffle_def)
next
  case (Cons x ys)
  then show ?thesis by (simp add: random_shuffle_def mset_shuffle_loop)
qed

text \<open>
  C8. On an empty or missing queue \<open>shuffle_queue\<close> returns \<open>False\<close> and leaves the whole
  state as it was. On a non-empty queue it returns \<open>True\<close>, replaces only that chat's
  queue, and the new queue is a permutation of the old one. In both cases the current
  songs are untouched.
\<close>

theorem shuffle_queue_frame:
  "(queue_of s c = [] \<longrightarrow> shuffle_queue rb c s = (Inr False, s)) \<and>
   (queue_of s c \<noteq> [] \<longrightarrow>
      shuffle_queue rb c s =
        (Inr True, s\<lparr>queues := (queues s)(c \<mapsto> random_shuffle rb (queue_of s c))\<rparr>) \<and>
      mset (queue_of (snd (shuffle_queue rb c s)) c) = mset (queue_of s c)) \<and>
   current_songs (snd (shuffle_queue rb c s)) = current_songs s"
  by (auto simp add: shuffle_queue_def queue_of_def mset_random_shuffle
      split: option.splits list.splits)

theorem shuffle_queue_frame_witness:
  "shuffle_queue draw_zero 1 (playing_state [] 0) = (Inr False, playing_state [] 0) \<and>
   shuffle_queue draw_zero 1 (playing_state [songA, songB, songC] 0) =
     (Inr True, playing_state [songB, songC, songA] 0) \<and>
   mset [songB, songC, songA] = mset [songA, songB, songC]"
proof -
  have e: "queue_of (playing_state [] 0) 1 = []"
    by (simp add: queue_of_def playing_state_def)
  have n: "queue_of (playing_state [songA, songB, songC] 0) 1 = [songA, songB, songC]"
    by (simp add: queue_of_def playing_state_def)
  have r: "random_shuffle draw_zero [songA, songB, songC] = [songB, songC, songA]"
    by (simp add: random_shuffle_def draw_zero_def numeral_2_eq_2)
  have u: "(playing_state [songA, songB, songC] 0)\<lparr>queues :=
             (queues (playing_state [songA, songB, songC] 0))(1 \<mapsto> [songB, songC, songA])\<rparr>
           = playing_state [songB, songC, songA] 0"
    by (simp add: playing_state_def)
  from shuffle_queue_frame [of "playing_state [] 0" 1 draw_zero] e
  have "shuffle_queue draw_zero 1 (playing_state [] 0) = (Inr False, playing_state [] 0)"
    by simp
  moreover from shuffle_queue_frame [of "playing_state [songA, songB, songC] 0" 1 draw_zero] n r u
  have "shuffle_queue draw_zero 1 (playing_state [songA, songB, songC] 0) =
     (Inr True, playing_state [songB, songC, songA] 0)"
    by simp
  ultimately show ?thesis by simp
qed

subsection \<open>Stopping an idle chat\<close>

text \<open>
  C9, as stated, fails where the idle chat has a loop mode stored: chat 1 has no current
  song, no queue and no voice client, and its loop mode is 2. \<open>stop_playback\<close> returns
  normally, but the loop mode it reports afterwards is 0, so the state has changed.
\<close>

theorem stop_idle_clears_loop_mode:
  "idle idle_loop_state 1 \<and>
   fst (stop_playback drv_ok Discord 1 idle_loop_state) = Inr () \<and>
   loop_mode_of idle_loop_state 1 = 2 \<and>
   loop_mode_of (snd (stop_playback drv_ok Discord 1 idle_loop_state)) 1 = 0 \<and>
   snd (stop_playback drv_ok Discord 1 idle_loop_state) \<noteq> idle_loop_state"
proof -
  have after: "loop_mode_of (snd (stop_playback drv_ok Discord 1 idle_loop_state)) 1 = 0"
    by (simp add: stop_playback_def idle_loop_state_def empty_state_def loop_mode_of_def)
  have before: "loop_mode_of idle_loop_state 1 = 2"
    by (simp add: idle_loop_state_def empty_state_def loop_mode_of_def)
  from after before
  have "snd (stop_playback drv_ok Discord 1 idle_loop_state) \<noteq> idle_loop_state"
    by auto
  moreover have "idle idle_loop_state 1"
    by (simp add: idle_def idle_loop_state_def empty_state_def queue_of_def)
  moreover have "fst (stop_playback drv_ok Discord 1 idle_loop_state) = Inr ()"
    by (simp add: stop_playback_def idle_loop_state_def empty_state_def)
  ultimately show ?thesis
    using before after by simp
qed

text \<open>
  C9, amended. For every idle chat, on either platform and whatever the driver does,
  \<open>stop_playback\<close> returns normally and the chat stays idle. The current songs, the
  chat's queue contents, the speeds and the voice clients are as before; the only
  changes are that the chat's queue entry and its stored loop mode are removed. When
  the chat had neither, the state is exactly as before.
\<close>

theorem stop_idle_stays_idle:
  "idle s c \<Longrightarrow>
   stop_playback drv p c s =
     (Inr (), s\<lparr>queues := (queues s)(c := None),
                 loop_modes := (loop_modes s)(c := None)\<rparr>) \<and>
   idle (snd (stop_playback drv p c s)) c \<and>
   current_songs (snd (stop_playback drv p c s)) = current_songs s \<and>
   queue_of (snd (stop_playback drv p c s)) c = queue_of s c \<and>
   playback_speeds (snd (stop_playback drv p c s)) = playback_speeds s \<and>
   voice_clients (snd (stop_playback drv p c s)) = voice_clients s \<and>
   (queues s c = None \<and> loop_modes s c = None \<longrightarrow> stop_playback drv p c s = (Inr (), s))"
  by (auto simp add: stop_playback_def idle_def queue_of_def Let_def fun_upd_idem
      split: option.splits)

theorem stop_idle_stays_idle_witness:
  "idle idle_loop_state 1 \<and>
   stop_playback drv_ok Discord 1 idle_loop_state = (Inr (), empty_state) \<and>
   stop_playback drv_ok Discord 1 empty_state = (Inr (), empty_state)"
proof -
  have i: "idle idle_loop_state 1"
    by (simp add: idle_def idle_loop_state_def empty_state_def queue_of_def)
  have j: "idle empty_state 1"
    by (simp add: idle_def empty_state_def queue_of_def)
  have e: "idle_loop_state\<lparr>queues := (queues idle_loop_state)(1 := None),
             loop_modes := (loop_modes idle_loop_state)(1 := None)\<rparr> = empty_state"
    by (simp add: idle_loop_state_def empty_state_def)
  have n: "queues empty_state 1 = None \<and> loop_modes empty_state 1 = None"
    by (simp add: empty_state_def)
  from stop_idle_stays_idle [OF i, of drv_ok Discord] e
  have "stop_playback drv_ok Discord 1 idle_loop_state = (Inr (), empty_state)"
    by simp
  moreover from stop_idle_stays_idle [OF j, of drv_ok Discord] n
  have "stop_playback drv_ok Discord 1 empty_state = (Inr (), empty_state)"
    by blast
  ultimately show ?thesis using i by simp
qed

subsection \<open>Stopping keeps the speed\<close>

text \<open>A play request in a chat with no queue and no current song, when the search and
  the extraction succeed: the new song becomes current and the driver is started with
  the chat's stored speed.\<close>

lemma search_and_play_fresh:
  assumes "queues s c = None" "current_songs s c = None"
    and "search_song drv query = Some info" "extract_audio drv (info_url info) = Some a"
  shows "search_and_play drv query vid user Discord c s =
     (Inr (make_song info vid user Discord),
      case discord_play drv a (speed_of s c) of
        None \<Rightarrow>
          s\<lparr>queues := (queues s)(c \<mapsto> []),
            current_songs := (current_songs s)(c \<mapsto> make_song info vid user Discord)\<rparr>
      | Some vc \<Rightarrow>
          s\<lparr>queues := (queues s)(c \<mapsto> []),
            current_songs := (current_songs s)(c \<mapsto> make_song info vid user Discord),
            voice_clients := (voice_clients s)(c \<mapsto> vc)\<rparr>)"
proof -
  let ?sg = "make_song info vid user Discord"
  let ?s2 = "s\<lparr>queues := (queues s)(c \<mapsto> [?sg])\<rparr>"
  let ?s3 = "s\<lparr>queues := (queues s)(c \<mapsto> []), current_songs := (current_songs s)(c \<mapsto> ?sg)\<rparr>"
  have u: "url ?sg = info_url info" by (simp add: make_song_def)
  have q2: "queues ?s2 c = Some (?sg # [])" by simp
  have s3: "?s2\<lparr>queues := (queues ?s2)(c \<mapsto> []),
                current_songs := (current_songs ?s2)(c \<mapsto> ?sg)\<rparr> = ?s3"
    by simp
  have st: "start_song drv Discord ?sg c ?s3 =
      (case discord_play drv a (speed_of s c) of
         None \<Rightarrow> Inl DriverError
       | Some vc \<Rightarrow> Inr (?s3\<lparr>voice_clients := (voice_clients s)(c \<mapsto> vc)\<rparr>))"
    using assms(4)
    by (simp add: start_song_def get_audio_source_def play_discord_def u speed_of_def
        split: option.splits)
  have pn: "play_next drv Discord c ?s2 =
      (Inr (), case discord_play drv a (speed_of s c) of
                 None \<Rightarrow> ?s3
               | Some vc \<Rightarrow> ?s3\<lparr>voice_clients := (voice_clients s)(c \<mapsto> vc)\<rparr>)"
  proof (cases "discord_play drv a (speed_of s c)")
    case None
    with st have "start_song drv Discord ?sg c ?s3 = Inl DriverError" by simp
    with play_next_failed [OF q2, of drv Discord DriverError] s3 None show ?thesis by simp
  next
    case (Some vc)
    with st have "start_song drv Discord ?sg c ?s3 =
        Inr (?s3\<lparr>voice_clients := (voice_clients s)(c \<mapsto> vc)\<rparr>)" by simp
    with play_next_started [OF q2, of drv Discord] s3 Some show ?thesis by simp
  qed
  show ?thesis
    using assms(1-3) pn
    by (simp add: search_and_play_def queue_of_def Let_def split: option.splits)
qed

text \<open>
  C10. After \<open>stop_playback\<close>, on either platform and whether or not the disconnect
  succeeded, the chat has no queue, no current song and no loop mode, while the speeds
  are exactly as before. So a later \<open>search_and_play\<close> on Discord, when the search and
  the extraction succeed, starts the driver with the speed the chat had before the
  stop, not with the default.
\<close>

theorem stop_keeps_speed:
  "queues (snd (stop_playback drv p c s)) c = None \<and>
   current_songs (snd (stop_playback drv p c s)) c = None \<and>
   loop_modes (snd (stop_playback drv p c s)) c = None \<and>
   playback_speeds (snd (stop_playback drv p c s)) = playback_speeds s \<and>
   speed_of (snd (stop_playback drv p c s)) c = speed_of s c \<and>
   (search_song drv query = Some info \<and> extract_audio drv (info_url info) = Some a \<longrightarrow>
      search_and_play drv query vid user Discord c (snd (stop_playback drv p c s)) =
        (Inr (make_song info vid user Discord),
         case discord_play drv a (speed_of s c) of
           None \<Rightarrow>
             (snd (stop_playback drv p c s))
               \<lparr>queues := (queues s)(c \<mapsto> []),
                current_songs := (current_songs s)(c \<mapsto> make_song info vid user Discord)\<rparr>
         | Some vc \<Rightarrow>
             (snd (stop_playback drv p c s))
               \<lparr>queues := (queues s)(c \<mapsto> []),
                current_songs := (current_songs s)(c \<mapsto> make_song info vid user Discord),
                voice_clients := (voice_clients (snd (stop_playback drv p c s)))(c \<mapsto> vc)\<rparr>))"
proof -
  let ?t = "snd (stop_playback drv p c s)"
  have q: "queues ?t c = None" and cur: "current_songs ?t c = None"
    and l: "loop_modes ?t c = None" and sp: "playback_speeds ?t = playback_speeds s"
    by (simp_all add: stop_playback_def Let_def split: option.splits)
  from sp have so: "speed_of ?t c = speed_of s c" by (simp add: speed_of_def)
  have qq: "(queues ?t)(c \<mapsto> []) = (queues s)(c \<mapsto> [])"
    and cc: "(current_songs ?t)(c \<mapsto> x) = (current_songs s)(c \<mapsto> x)" for x
    by (simp_all add: stop_playback_def Let_def split: option.splits)
  have later: "search_and_play drv query vid user Discord c ?t =
        (Inr (make_song info vid user Discord),
         case discord_play drv a (speed_of s c) of
           None \<Rightarrow>
             ?t\<lparr>queues := (queues s)(c \<mapsto> []),
                current_songs := (current_songs s)(c \<mapsto> make_song info vid user Discord)\<rparr>
         | Some vc \<Rightarrow>
             ?t\<lparr>queues := (queues s)(c \<mapsto> []),
                current_songs := (current_songs s)(c \<mapsto> make_song info vid user Discord),
                voice_clients := (voice_clients ?t)(c \<mapsto> vc)\<rparr>)"
    if "search_song drv query = Some info" "extract_audio drv (info_url info) = Some a"
    using search_and_play_fresh [OF q cur that, of vid user] by (simp only: so qq cc)
  from q cur l sp so later show ?thesis by blast
qed

theorem stop_keeps_speed_witness:
  "speed_of fast_state 1 = Finite (3 / 2) \<and>
   speed_of (snd (stop_playback drv_speed Discord 1 fast_state)) 1 = Finite (3 / 2) \<and>
   voice_clients (snd (search_and_play drv_speed ''d'' False 42 Discord 1
      (snd (stop_playback drv_speed Discord 1 fast_state)))) 1 = Some 8"
proof -
  have a: "search_song drv_speed ''d'' = Some infoD \<and>
           extract_audio drv_speed (info_url infoD) = Some (info_url infoD)"
    by (simp add: drv_speed_def drv_ok_def)
  have b: "speed_of fast_state 1 = Finite (3 / 2)"
    by (simp add: speed_of_def fast_state_def)
  have c: "discord_play drv_speed (info_url infoD) (Finite (3 / 2)) = Some 8"
    by (simp add: drv_speed_def)
  from stop_keeps_speed [of drv_speed Discord 1 fast_state "''d''" infoD "info_url infoD" False 42]
    a b c
  show ?thesis by simp
qed

subsection \<open>Failing starts\<close>

text \<open>A start that succeeds changes nothing but the stored voice client; whether a start
  fails depends on the state only through the chat's speed.\<close>

lemma start_song_frame:
  "start_song drv p sg c s = Inr s2 \<Longrightarrow>
   queues s2 = queues s \<and> current_songs s2 = current_songs s \<and>
   loop_modes s2 = loop_modes s \<and> playback_speeds s2 = playback_speeds s"
  by (auto simp add: start_song_def get_audio_source_def play_discord_def play_telegram_def
      Let_def split: option.splits if_splits)

lemma start_fails_speed:
  "playback_speeds s2 c = playback_speeds s c \<Longrightarrow>
   start_fails drv p c s2 sg = start_fails drv p c s sg"
  by (simp add: start_fails_def start_song_def get_audio_source_def play_discord_def
      play_telegram_def speed_of_def Let_def split: option.splits)

text \<open>
  C3, as stated, fails on a queue of three songs none of which can be started:
  \<open>_play_next\<close> tries all three (the queue ends empty and the third song is left as
  current) and returns normally. The claim allows one retry, which would leave the
  third song queued, and has the second failure raised.
\<close>

theorem play_next_all_fail:
  "fst (play_next drv_fail Discord 1 (queued_state [songA, songB, songC])) = Inr () \<and>
   queues (snd (play_next drv_fail Discord 1 (queued_state [songA, songB, songC]))) 1
     = Some [] \<and>
   current_songs (snd (play_next drv_fail Discord 1 (queued_state [songA, songB, songC]))) 1
     = Some songC"
  by code_simp

text \<open>
  C3, amended. When starting the queue head fails, \<open>_play_next\<close> goes on to each
  following queued song in turn, until one starts or the queue is empty, and it never
  surfaces the failure: it returns normally. Afterwards the queue is what followed the
  first song that started (empty when none did), and the current song is that song,
  or the last song tried when every start failed.
\<close>

theorem play_next_retries_down_queue:
  "fst (play_next drv p c s) = Inr () \<and>
   queue_of (snd (play_next drv p c s)) c =
     tl (dropWhile (start_fails drv p c s) (queue_of s c)) \<and>
   current_songs (snd (play_next drv p c s)) c =
     (if queue_of s c = [] then None
      else if dropWhile (start_fails drv p c s) (queue_of s c) = []
      then Some (last (queue_of s c))
      else Some (hd (dropWhile (start_fails drv p c s) (queue_of s c))))"
proof (induction drv p c s rule: play_next.induct)
  case (1 drv p c s)
  show ?case
  proof (cases "queue_of s c")
    case Nil
    then show ?thesis by (simp add: play_next_empty queue_of_def)
  next
    case (Cons sg rest)
    then have q: "queues s c = Some (sg # rest)"
      by (simp add: queue_of_def split: option.splits)
    let ?s1 = "s\<lparr>queues := (queues s)(c \<mapsto> rest),
                 current_songs := (current_songs s)(c \<mapsto> sg)\<rparr>"
    have f1: "start_fails drv p c ?s1 = start_fails drv p c s"
      by (rule ext, rule start_fails_speed) simp
    have q1: "queue_of ?s1 c = rest" by (simp add: queue_of_def)
    show ?thesis
    proof (cases "start_song drv p sg c ?s1")
      case (Inr s2)
      then have "\<not> start_fails drv p c ?s1 sg" by (simp add: start_fails_def)
      with f1 have nf: "\<not> start_fails drv p c s sg" by simp
      from start_song_frame [OF Inr]
      have "queue_of s2 c = rest" "current_songs s2 c = Some sg"
        by (simp_all add: queue_of_def)
      with play_next_started [OF q Inr] Cons nf show ?thesis by simp
    next
      case (Inl e)
      then have "start_fails drv p c ?s1 sg" by (simp add: start_fails_def)
      with f1 have fl: "start_fails drv p c s sg" by simp
      show ?thesis
      proof (cases "rest = []")
        case True
        with play_next_failed [OF q Inl] Cons fl show ?thesis
          by (simp add: queue_of_def)
      next
        case False
        from "1.IH" [OF q refl Inl False] f1 q1 False
        have "fst (play_next drv p c ?s1) = Inr () \<and>
              queue_of (snd (play_next drv p c ?s1)) c =
                tl (dropWhile (start_fails drv p c s) rest) \<and>
              current_songs (snd (play_next drv p c ?s1)) c =
                (if dropWhile (start_fails drv p c s) rest = [] then Some (last rest)
                 else Some (hd (dropWhile (start_fails drv p c s) rest)))"
          by simp
        with play_next_failed [OF q Inl] Cons fl False show ?thesis by simp
      qed
    qed
  qed
qed

theorem play_next_retries_down_queue_witness:
  "start_fails drv_only_c Discord 1 (queued_state [songA, songB, songC, songA]) songA \<and>
   start_fails drv_only_c Discord 1 (queued_state [songA, songB, songC, songA]) songB \<and>
   fst (play_next drv_only_c Discord 1 (queued_state [songA, songB, songC, songA])) = Inr () \<and>
   queue_of (snd (play_next drv_only_c Discord 1 (queued_state [songA, songB, songC, songA]))) 1
     = [songA] \<and>
   current_songs (snd (play_next drv_only_c Discord 1 (queued_state [songA, songB, songC, songA]))) 1
     = Some songC"
proof -
  let ?s = "queued_state [songA, songB, songC, songA]"
  have a: "start_fails drv_only_c Discord 1 ?s songA"
    and b: "start_fails drv_only_c Discord 1 ?s songB"
    and c: "\<not> start_fails drv_only_c Discord 1 ?s songC"
    by code_simp+
  have q: "queue_of ?s 1 = [songA, songB, songC, songA]"
    by (simp add: queue_of_def queued_state_def)
  from play_next_retries_down_queue [of drv_only_c Discord 1 ?s] a b c q
  show ?thesis by simp
qed

subsection \<open>Loop mode 2: looping the queue\<close>




subsection \<open>No voice client, no current song\<close>

lemma handle_inv_frame:
  "handle_inv s c' \<Longrightarrow> current_songs s2 c' = current_songs s c' \<Longrightarrow>
   voice_clients s2 c' = voice_clients s c' \<Longrightarrow> handle_inv s2 c'"
  by (simp add: handle_inv_def)

text \<open>On Discord, when the extraction and the player never fail, a start stores a voice
  client, and \<open>_play_next\<close> keeps the invariant.\<close>

lemma start_song_discord_ok:
  assumes "\<And>u. extract_audio drv u \<noteq> None" "\<And>a v. discord_play drv a v \<noteq> None"
  shows "\<exists>vc. start_song drv Discord sg c s = Inr (s\<lparr>voice_clients := (voice_clients s)(c \<mapsto> vc)\<rparr>)"
proof -
  from assms(1) obtain a where a: "extract_audio drv (url sg) = Some a" by fastforce
  from assms(2) obtain vc where "discord_play drv a (speed_of s c) = Some vc" by fastforce
  with a have "start_song drv Discord sg c s =
      Inr (s\<lparr>voice_clients := (voice_clients s)(c \<mapsto> vc)\<rparr>)"
    by (simp add: start_song_def get_audio_source_def play_discord_def)
  then show ?thesis by blast
qed

lemma play_next_discord_inv:
  assumes "\<And>u. extract_audio drv u \<noteq> None" "\<And>a v. discord_play drv a v \<noteq> None"
    and "handle_inv s c'"
  shows "handle_inv (snd (play_next drv Discord c s)) c'"
proof (cases "queue_of s c")
  case Nil
  with assms(3) show ?thesis
    by (simp add: play_next_empty handle_inv_def)
next
  case (Cons sg rest)
  then have q: "queues s c = Some (sg # rest)"
    by (simp add: queue_of_def split: option.splits)
  let ?s1 = "s\<lparr>queues := (queues s)(c \<mapsto> rest),
               current_songs := (current_songs s)(c \<mapsto> sg)\<rparr>"
  from start_song_discord_ok [OF assms(1,2)]
  obtain vc where "start_song drv Discord sg c ?s1 =
      Inr (?s1\<lparr>voice_clients := (voice_clients ?s1)(c \<mapsto> vc)\<rparr>)"
    by blast
  from play_next_started [OF q this] assms(3) show ?thesis
    by (simp add: handle_inv_def)
qed

text \<open>
  C4, as stated, fails on the first play request of a chat. The empty state satisfies
  the invariant. On Telegram, with every external call succeeding, the request leaves
  a current song and no voice client, since \<open>_play_telegram\<close> stores none. On Discord,
  when the stream cannot be extracted, \<open>_play_next\<close> has already set the current song
  and leaves it set, and no voice client was stored.
\<close>

theorem current_without_handle:
  "handle_inv empty_state 1 \<and>
   \<not> handle_inv (step drv_ok Telegram 1 (Play ''d'' False 42) empty_state) 1 \<and>
   \<not> handle_inv (step drv_fail Discord 1 (Play ''d'' False 42) empty_state) 1"
  by code_simp

text \<open>
  C4, amended. On Discord, when stream extraction and the player's start never fail,
  every operation on any chat \<open>c\<close> (play request, completion callback, shuffle, skip,
  stop, pause, resume, loop mode, speed, seek) preserves the invariant for every chat
  \<open>c'\<close>: a chat without a stored voice client has no current song. So does
  \<open>_play_next\<close> itself, wherever it runs.
\<close>

theorem handle_inv_preserved:
  assumes ex: "\<And>u. extract_audio drv u \<noteq> None" and dp: "\<And>a v. discord_play drv a v \<noteq> None"
    and inv: "handle_inv s c'"
  shows "handle_inv (step drv Discord c cmd s) c' \<and>
         handle_inv (snd (play_next drv Discord c s)) c'"
proof (rule conjI)
  show "handle_inv (snd (play_next drv Discord c s)) c'"
    by (rule play_next_discord_inv [OF ex dp inv])
next
  show "handle_inv (step drv Discord c cmd s) c'"
  proof (cases cmd)
  case (Play query vid user)
  let ?s1 = "case queues s c of None \<Rightarrow> s\<lparr>queues := (queues s)(c \<mapsto> [])\<rparr> | Some q \<Rightarrow> s"
  have i1: "handle_inv ?s1 c'"
    using inv by (simp add: handle_inv_def split: option.splits)
  show ?thesis
  proof (cases "search_song drv query")
    case None
    with Play i1 show ?thesis by (simp add: search_and_play_def Let_def)
  next
    case (Some info)
    let ?sg = "make_song info vid user Discord"
    let ?s2 = "?s1\<lparr>queues := (queues ?s1)(c \<mapsto> queue_of ?s1 c @ [?sg])\<rparr>"
    have i2: "handle_inv ?s2 c'"
      using i1 by (rule handle_inv_frame) simp_all
    show ?thesis
    proof (cases "current_songs ?s2 c")
      case None
      from play_next_discord_inv [OF ex dp i2, of c]
      have "handle_inv (snd (play_next drv Discord c ?s2)) c'" .
      moreover have "step drv Discord c cmd s = snd (play_next drv Discord c ?s2)"
        using Play Some None
        by (simp add: search_and_play_def Let_def split: prod.splits sum.splits)
      ultimately show ?thesis by simp
    next
      case (Some cur)
      with Play \<open>search_song drv query = Some info\<close> i2 show ?thesis
        by (simp add: search_and_play_def Let_def)
    qed
  qed
next
  case TrackEnd
  obtain r s1 where a: "after_playing c s = (r, s1)" by (cases "after_playing c s")
  then have "current_songs s1 = current_songs s \<and> voice_clients s1 = voice_clients s"
    by (auto simp add: after_playing_def create_task_def Let_def
        split: if_splits option.splits)
  with inv have "handle_inv s1 c'" by (simp add: handle_inv_def)
  with TrackEnd a show ?thesis by simp
next
  case (Shuffle rb)
  with inv show ?thesis
    by (simp add: shuffle_queue_def handle_inv_def split: option.splits list.splits)
next
  case Skip
  with inv play_next_discord_inv [OF ex dp inv, of c] show ?thesis
    by (auto simp add: skip_song_def split: prod.splits sum.splits)
next
  case Stop
  with inv show ?thesis
    by (simp add: stop_playback_def handle_inv_def Let_def split: option.splits)
next
  case Pause
  with inv show ?thesis by (simp add: pause_playback_def)
next
  case Resume
  with inv show ?thesis by (simp add: resume_playback_def)
next
  case (SetLoop mode)
  with inv show ?thesis by (simp add: set_loop_mode_def handle_inv_def Let_def)
next
  case (SetSpeed speed)
  with inv show ?thesis
    by (simp add: set_playback_speed_def handle_inv_def Let_def split: option.splits)
next
  case (Seek position)
  with inv show ?thesis by (simp add: seek_position_def)
qed
qed

theorem handle_inv_preserved_witness:
  "handle_inv empty_state 1 \<and>
   handle_inv (step drv_ok Discord 1 (Play ''d'' False 42) empty_state) 1 \<and>
   current_songs (step drv_ok Discord 1 (Play ''d'' False 42) empty_state) 1 \<noteq> None"
proof -
  have e: "extract_audio drv_ok u \<noteq> None" for u by (simp add: drv_ok_def)
  have d: "discord_play drv_ok a v \<noteq> None" for a v by (simp add: drv_ok_def)
  have i: "handle_inv empty_state 1" by (simp add: handle_inv_def empty_state_def)
  have c: "current_songs (step drv_ok Discord 1 (Play ''d'' False 42) empty_state) 1 \<noteq> None"
    by code_simp
  from handle_inv_preserved [OF e d i, of 1 "Play ''d'' False 42"] i c
  show ?thesis by simp
qed

subsection \<open>Loop modes 1 and 3 to 10\<close>

text \<open>The callback never returns normally: it raises at an index or at \<open>create_task\<close>.\<close>

lemma after_playing_raises: "fst (after_playing c s) \<noteq> Inr u"
  by (simp add: after_playing_def create_task_def Let_def split: option.splits)

text \<open>With loop mode 1 the callback changes nothing, as with loop mode 0: the current
  song is not put back into the queue before \<open>_play_next\<close> is asked for.\<close>

lemma loop_song_callback:
  "loop_mode_of s c = 1 \<or> loop_mode_of s c = 0 \<Longrightarrow>
   after_playing c s = (Inl RuntimeError, s)"
  by (auto simp add: after_playing_def create_task_def)

text \<open>With a loop mode from 3 to 10, a current song and a queue, the callback decrements
  the loop mode and puts the current song back at the head of the queue.\<close>

lemma loop_count_callback:
  assumes "loop_modes s c = Some m" "3 \<le> m"
    and "current_songs s c = Some cur" "queues s c = Some q"
  shows "after_playing c s =
           (Inl RuntimeError,
            s\<lparr>loop_modes := (loop_modes s)(c \<mapsto> m - 1),
              queues := (queues s)(c \<mapsto> cur # q)\<rparr>)"
  using assms by (simp add: after_playing_def create_task_def loop_mode_of_def)

text \<open>
  C1. The code at loop mode 5, with \<open>songA\<close> current and an empty queue, on the one
  completion the voice client delivers. The callback decrements the loop mode to 4
  and puts \<open>songA\<close> at the head of the queue, then raises at \<open>create_task\<close>: \<open>_play_next\<close>
  does not run, so \<open>songA\<close> is not started again and no further completion follows.
  And at loop mode 3 the same callback stores loop mode 2, the number of "loop queue":
  the repeat counter and the mode share one variable.
\<close>

theorem loop_count_not_replayed:
  "after_playing 1 (playing_state [] 5) = (Inl RuntimeError, playing_state [songA] 4) \<and>
   after_playing 1 (playing_state [songB] 3) = (Inl RuntimeError, playing_state [songA, songB] 2) \<and>
   fst (set_loop_mode (Some 2) 1 (playing_state [songA, songB] 2)) = Inr (LoopNamed ''queue'')"
  by (simp add: after_playing_def create_task_def loop_mode_of_def playing_state_def
      set_loop_mode_def)

text \<open>
  C2. The code at loop mode 1, with \<open>songA\<close> current and \<open>songB\<close> queued, on the one
  completion the voice client delivers. The callback changes nothing and raises at
  \<open>create_task\<close>: \<open>songA\<close> is not started again. The coroutine it built is \<open>_play_next\<close> on
  the untouched queue, which starts \<open>songB\<close>, not \<open>songA\<close>: unlike the branch for the loop
  modes 3 to 10, this branch does not put the current song back.
\<close>

theorem loop_song_not_replayed:
  "after_playing 1 (playing_state [songB] 1) = (Inl RuntimeError, playing_state [songB] 1) \<and>
   current_songs (snd (play_next drv_ok Discord 1 (playing_state [songB] 1))) 1 = Some songB \<and>
   queues (snd (play_next drv_ok Discord 1 (playing_state [songB] 1))) 1 = Some []"
proof -
  have "after_playing 1 (playing_state [songB] 1) = (Inl RuntimeError, playing_state [songB] 1)"
    by (simp add: after_playing_def create_task_def loop_mode_of_def playing_state_def)
  moreover have
    "current_songs (snd (play_next drv_ok Discord 1 (playing_state [songB] 1))) 1 = Some songB \<and>
     queues (snd (play_next drv_ok Discord 1 (playing_state [songB] 1))) 1 = Some []"
    by code_simp
  ultimately show ?thesis by simp
qed

subsection \<open>A current song has a queue\<close>

text \<open>
  The callback and \<open>set_playback_speed\<close> index \<open>self.queues[chat_id]\<close> when the chat has
  a current song. Every operation keeps the property that a chat with a current song
  has a queue entry, so from the empty state that indexing never raises.
\<close>

lemma play_next_queue_inv:
  "queue_inv s c' \<Longrightarrow> queue_inv (snd (play_next drv p c s)) c'"
proof (induction drv p c s rule: play_next.induct)
  case (1 drv p c s)
  show ?case
  proof (cases "queue_of s c")
    case Nil
    with "1.prems" show ?thesis by (simp add: play_next_empty queue_inv_def)
  next
    case (Cons sg rest)
    then have q: "queues s c = Some (sg # rest)"
      by (simp add: queue_of_def split: option.splits)
    let ?s1 = "s\<lparr>queues := (queues s)(c \<mapsto> rest),
                 current_songs := (current_songs s)(c \<mapsto> sg)\<rparr>"
    have i1: "queue_inv ?s1 c'" using "1.prems" by (simp add: queue_inv_def)
    show ?thesis
    proof (cases "start_song drv p sg c ?s1")
      case (Inr s2)
      from start_song_frame [OF Inr] i1 have "queue_inv s2 c'" by (simp add: queue_inv_def)
      with play_next_started [OF q Inr] show ?thesis by simp
    next
      case (Inl e)
      show ?thesis
      proof (cases "rest = []")
        case True
        with play_next_failed [OF q Inl] i1 show ?thesis by simp
      next
        case False
        with play_next_failed [OF q Inl] "1.IH" [OF q refl Inl False i1] show ?thesis by simp
      qed
    qed
  qed
qed

lemma queue_inv_step: "queue_inv s c' \<Longrightarrow> queue_inv (step drv p c cmd s) c'"
proof (cases cmd)
  case (Play query vid user)
  assume inv: "queue_inv s c'"
  let ?s1 = "case queues s c of None \<Rightarrow> s\<lparr>queues := (queues s)(c \<mapsto> [])\<rparr> | Some q \<Rightarrow> s"
  have i1: "queue_inv ?s1 c'"
    using inv by (simp add: queue_inv_def split: option.splits)
  show ?thesis
  proof (cases "search_song drv query")
    case None
    with Play i1 show ?thesis by (simp add: search_and_play_def Let_def)
  next
    case (Some info)
    let ?sg = "make_song info vid user p"
    let ?s2 = "?s1\<lparr>queues := (queues ?s1)(c \<mapsto> queue_of ?s1 c @ [?sg])\<rparr>"
    have i2: "queue_inv ?s2 c'"
      using i1 by (simp add: queue_inv_def)
    show ?thesis
    proof (cases "current_songs ?s2 c")
      case None
      have "step drv p c cmd s = snd (play_next drv p c ?s2)"
        using Play Some None
        by (simp add: search_and_play_def Let_def split: prod.splits sum.splits)
      with play_next_queue_inv [OF i2, of drv p c] show ?thesis by simp
    next
      case (Some cur)
      with Play \<open>search_song drv query = Some info\<close> i2 show ?thesis
        by (simp add: search_and_play_def Let_def)
    qed
  qed
next
  case TrackEnd
  assume inv: "queue_inv s c'"
  obtain r s1 where a: "after_playing c s = (r, s1)" by (cases "after_playing c s")
  with inv have "queue_inv s1 c'"
    by (auto simp add: after_playing_def create_task_def queue_inv_def Let_def
        split: if_splits option.splits)
  with TrackEnd a show ?thesis by simp
next
  case (Shuffle rb)
  assume "queue_inv s c'"
  with Shuffle show ?thesis
    by (simp add: shuffle_queue_def queue_inv_def split: option.splits list.splits)
next
  case Skip
  assume inv: "queue_inv s c'"
  with Skip play_next_queue_inv [OF inv, of drv p c] show ?thesis
    by (auto simp add: skip_song_def split: prod.splits sum.splits)
next
  case Stop
  assume "queue_inv s c'"
  with Stop show ?thesis
    by (simp add: stop_playback_def queue_inv_def Let_def split: option.splits)
next
  case Pause
  assume "queue_inv s c'"
  with Pause show ?thesis by (simp add: pause_playback_def)
next
  case Resume
  assume "queue_inv s c'"
  with Resume show ?thesis by (simp add: resume_playback_def)
next
  case (SetLoop mode)
  assume "queue_inv s c'"
  with SetLoop show ?thesis by (simp add: set_loop_mode_def queue_inv_def Let_def)
next
  case (SetSpeed speed)
  assume "queue_inv s c'"
  with SetSpeed show ?thesis
    by (simp add: set_playback_speed_def queue_inv_def Let_def split: option.splits)
next
  case (Seek position)
  assume "queue_inv s c'"
  with Seek show ?thesis by (simp add: seek_position_def)
qed

end
